theory Spec2Isabelle
  imports Complex_Main
begin

section \<open>The price scraper (scraping/scraping\_price.py)\<close>

text \<open>
  The script talks to a web server, draws random numbers, reads the clock, sleeps and
  writes files. Each of these is made explicit here: what the outside world supplies is a
  field of the record \<open>env\<close>, and what the script does to the outside world is appended to
  the \<open>trace\<close> of the record \<open>world\<close>, which every operation takes and returns.
  Python floats are read as real numbers; the file system is assumed not to fail.
\<close>

subsection \<open>Configuration\<close>

definition BASE_URL :: string where
  "BASE_URL = ''https://precodahora.ba.gov.br/produtos/''"

definition FUELS :: "string list" where
  "FUELS = [''GASOLINA'', ''ETANOL'', ''GNV'', ''DIESEL'']"

definition HORAS :: int where
  "HORAS = 72"

definition LATITUDE :: real where
  "LATITUDE = - 1297111 / 100000"

definition LONGITUDE :: real where
  "LONGITUDE = - 3851083 / 100000"

definition RAIO :: int where
  "RAIO = 100"

definition ORDENAR :: string where
  "ORDENAR = ''preco.asc''"

definition MAX_RETRIES :: int where
  "MAX_RETRIES = 6"

definition BASE_BACKOFF_SECONDS :: real where
  "BASE_BACKOFF_SECONDS = 2"

definition MAX_BACKOFF_SECONDS :: real where
  "MAX_BACKOFF_SECONDS = 60"

subsection \<open>Errors, responses, the outside world\<close>

text \<open>
  Every exception the script can meet is a value of \<open>error\<close>. \<open>RetriesExhausted\<close> is the
  RuntimeError raised after the retry loop; its argument is the value of \<open>last_err\<close> that
  the message prints.
\<close>

datatype error =
    TransportError string
  | HTTPError int
  | Unauthorized string
  | ValueError
  | TypeError
  | AttributeError
  | RetriesExhausted "error option"
  | NotJSON string
  | ResultadoNotList
  | CsrfNotFound

datatype json =
    JNull
  | JBool bool
  | JInt int
  | JFloat real
  | JStr string
  | JArr "json list"
  | JObj "(string \<times> json) list"

text \<open>
  A response object of the HTTP library: \<open>retry_after\<close> is \<open>r.headers.get("Retry-After")\<close>,
  \<open>json_body\<close> is the value of \<open>r.json()\<close>, \<open>None\<close> when that call raises.
\<close>

record response =
  status_code :: int
  retry_after :: "string option"
  text_body :: string
  json_body :: "json option"

text \<open>The server either answers, or the request itself raises (timeout, connection reset).\<close>

datatype reply = Fault string | Resp response

record request =
  req_method :: string
  req_url :: string
  req_csrf :: "string option"
  req_data :: "(string \<times> string) list"

text \<open>
  The regular expressions of the script, by name. The engine that searches for them is the
  library's, so it is a field of \<open>env\<close>; a match is the function \<open>m.group\<close>.
\<close>

datatype pattern =
    InputCsrfToken
  | MetaCsrfToken
  | XCsrfTokenKV
  | CsrfTokenKV
  | CsrfTokenCamelKV
  | SIGNED_TOKEN_RE
  | ScriptSrc

type_synonym rmatch = "nat \<Rightarrow> string"

record env =
  server :: "nat \<Rightarrow> reply"
  rand :: "nat \<Rightarrow> real"
  utc_clock :: "nat \<Rightarrow> int"
  local_date :: "nat \<Rightarrow> string"
  uuid4 :: "nat \<Rightarrow> string"
  re_search :: "pattern \<Rightarrow> string \<Rightarrow> rmatch option"
  re_findall :: "pattern \<Rightarrow> string \<Rightarrow> string list"
  urljoin :: "string \<Rightarrow> string \<Rightarrow> string"
  int_of_str :: "string \<Rightarrow> int option"
  abspath :: "string \<Rightarrow> string"
  OUT_DIR :: string

text \<open>
  What the script has done so far. \<open>sent\<close>, \<open>drawn\<close>, \<open>clock_reads\<close> and \<open>ids\<close> count the
  requests issued, the random numbers drawn, the clock readings and the identifiers
  generated: the next one is the entry of \<open>env\<close> at that index. \<open>trace\<close> lists the visible
  effects, oldest first; \<open>fs\<close> is the content of the files written.
\<close>

record query =
  horas :: int
  latitude :: real
  longitude :: real
  raio :: int
  ordenar :: string
  pagina :: int

record row =
  row_collected_at_utc :: int
  row_run_id :: string
  row_source :: string
  row_anp :: string
  row_query :: query
  row_raw :: json

record manifest =
  run_id :: string
  collected_at_utc :: int
  anp :: string
  base_url :: string
  out_root :: string
  data_file :: string
  manifest_query :: query
  totalPaginas_reported :: int
  totalRegistros_reported :: int
  registrosdaPagina_reported :: int
  rows_written :: nat

record overall =
  finished_at_utc :: int
  out_dir :: string
  runs :: "manifest list"

datatype content =
    Rows "row list"
  | ManifestDoc manifest
  | OverallDoc overall
  | TextDoc string

datatype event =
    Sent request
  | Slept real
  | MadeDir string
  | Removed string
  | Appended string "row list"
  | Wrote string content

record world =
  sent :: nat
  drawn :: nat
  clock_reads :: nat
  ids :: nat
  trace :: "event list"
  fs :: "string \<rightharpoonup> content"

definition emit :: "event \<Rightarrow> world \<Rightarrow> world" where
  "emit e w = w\<lparr>trace := trace w @ [e]\<rparr>"

definition sleep :: "real \<Rightarrow> world \<Rightarrow> world" where
  "sleep d w = emit (Slept d) w"

text \<open>\<open>session.request\<close>: the next reply of the server; the request is recorded.\<close>

definition session_request :: "env \<Rightarrow> request \<Rightarrow> world \<Rightarrow> reply \<times> world" where
  "session_request e rq w = (server e (sent w), emit (Sent rq) (w\<lparr>sent := Suc (sent w)\<rparr>))"

text \<open>
  \<open>random.uniform(a, b)\<close> is \<open>a + (b - a) * random()\<close> in the standard library; \<open>rand\<close> is
  the sequence of values of \<open>random()\<close>.
\<close>

definition random_uniform :: "env \<Rightarrow> real \<Rightarrow> real \<Rightarrow> world \<Rightarrow> real \<times> world" where
  "random_uniform e a b w = (a + (b - a) * rand e (drawn w), w\<lparr>drawn := Suc (drawn w)\<rparr>)"

text \<open>
  \<open>utc_now_iso\<close>: the clock reading, in whole seconds (the script prints it with
  \<open>timespec="seconds"\<close>; the text of the time stamp is not modelled, its order is).
\<close>

definition utc_now_iso :: "env \<Rightarrow> world \<Rightarrow> int \<times> world" where
  "utc_now_iso e w = (utc_clock e (clock_reads w), w\<lparr>clock_reads := Suc (clock_reads w)\<rparr>)"

definition local_date_yyyy_mm_dd :: "env \<Rightarrow> world \<Rightarrow> string \<times> world" where
  "local_date_yyyy_mm_dd e w = (local_date e (clock_reads w), w\<lparr>clock_reads := Suc (clock_reads w)\<rparr>)"

definition new_uuid :: "env \<Rightarrow> world \<Rightarrow> string \<times> world" where
  "new_uuid e w = (uuid4 e (ids w), w\<lparr>ids := Suc (ids w)\<rparr>)"

subsection \<open>HTTP with retry and backoff\<close>

text \<open>
  \<open>compute_backoff\<close>: \<open>backoff_value\<close> is its arithmetic, given the value \<open>u\<close> that
  \<open>random.uniform(0.25, 0.75)\<close> returned. \<open>2 ** (attempt - 1)\<close> is a power with an integer
  exponent.
\<close>

definition backoff_base :: "int \<Rightarrow> real" where
  "backoff_base attempt = min MAX_BACKOFF_SECONDS (BASE_BACKOFF_SECONDS * (2 powi (attempt - 1)))"

definition backoff_value :: "int \<Rightarrow> real \<Rightarrow> real" where
  "backoff_value attempt u =
     (let base = backoff_base attempt;
          jitter = u * base
      in min MAX_BACKOFF_SECONDS (base + jitter))"

definition compute_backoff :: "env \<Rightarrow> int \<Rightarrow> world \<Rightarrow> real \<times> world" where
  "compute_backoff e attempt w =
     (case random_uniform e (1/4) (3/4) w of (u, w') \<Rightarrow> (backoff_value attempt u, w'))"

text \<open>
  \<open>str.isdigit\<close> on a header value. Header text holds the code points 0 to 255; of these
  Python counts as digits the ten decimal digits and the superscripts two, three and one
  (code points 178, 179, 185). \<open>float\<close> reads a string of decimal digits as its value and
  raises ValueError on a superscript digit; \<open>float_of_digits\<close> is \<open>float\<close> on the strings
  that passed \<open>isdigit\<close>, the only ones it is called on.
\<close>

definition is_decimal :: "char \<Rightarrow> bool" where
  "is_decimal c \<longleftrightarrow> (48::nat) \<le> of_char c \<and> (of_char c :: nat) \<le> 57"

definition isdigit_char :: "char \<Rightarrow> bool" where
  "isdigit_char c \<longleftrightarrow> is_decimal c \<or> c = CHR 0xB2 \<or> c = CHR 0xB3 \<or> c = CHR 0xB9"

definition isdigit :: "string \<Rightarrow> bool" where
  "isdigit s \<longleftrightarrow> s \<noteq> [] \<and> list_all isdigit_char s"

definition digit_value :: "char \<Rightarrow> nat" where
  "digit_value c = of_char c - 48"

definition decimal_value :: "string \<Rightarrow> nat" where
  "decimal_value s = foldl (\<lambda>acc c. 10 * acc + digit_value c) 0 s"

definition float_of_digits :: "string \<Rightarrow> error + real" where
  "float_of_digits s = (if list_all is_decimal s then Inr (real (decimal_value s)) else Inl ValueError)"

text \<open>\<open>r.raise_for_status()\<close>: HTTPError for a status from 400 to 599.\<close>

definition raise_for_status :: "response \<Rightarrow> error option" where
  "raise_for_status r =
     (if 400 \<le> status_code r \<and> status_code r < 600 then Some (HTTPError (status_code r)) else None)"

definition snippet :: "nat \<Rightarrow> string \<Rightarrow> string" where
  "snippet n s = map (\<lambda>c. if c = CHR 0x0A then CHR '' '' else c) (take n s)"

text \<open>
  One pass through the \<open>try\<close> block of \<open>request_with_retry\<close>. \<open>Return\<close> is \<open>return r\<close>,
  \<open>Continue\<close> is the \<open>continue\<close> after the wait of the 429 branch, \<open>Raised\<close> is an exception
  raised inside the block, which the \<open>except Exception\<close> clause of the loop catches: the
  request's own fault, the ValueError of \<open>float\<close>, the RuntimeError of the 401 branch and
  the HTTPError of \<open>raise_for_status\<close>.
\<close>

datatype attempt_result = Return response | Continue | Raised error

definition try_block :: "env \<Rightarrow> request \<Rightarrow> int \<Rightarrow> world \<Rightarrow> attempt_result \<times> world" where
  "try_block e rq attempt w =
     (case session_request e rq w of
        (Fault msg, w1) \<Rightarrow> (Raised (TransportError msg), w1)
      | (Resp r, w1) \<Rightarrow>
          if status_code r = 429 then
            (case retry_after r of
               Some ra \<Rightarrow>
                 if ra \<noteq> [] \<and> isdigit ra then
                   (case float_of_digits ra of
                      Inl err \<Rightarrow> (Raised err, w1)
                    | Inr wait_s \<Rightarrow> (Continue, sleep wait_s w1))
                 else
                   (case compute_backoff e attempt w1 of
                      (wait_s, w2) \<Rightarrow> (Continue, sleep wait_s w2))
             | None \<Rightarrow>
                 (case compute_backoff e attempt w1 of
                    (wait_s, w2) \<Rightarrow> (Continue, sleep wait_s w2)))
          else if status_code r = 401 then
            (Raised (Unauthorized (snippet 300 (text_body r))), w1)
          else
            (case raise_for_status r of
               Some err \<Rightarrow> (Raised err, w1)
             | None \<Rightarrow> (Return r, w1)))"

text \<open>
  The loop \<open>for attempt in range(1, MAX_RETRIES + 1)\<close>, over the attempt numbers still to
  come, with the \<open>except\<close> clause and the \<open>raise\<close> after the loop.
\<close>

fun retry_loop ::
  "env \<Rightarrow> request \<Rightarrow> int list \<Rightarrow> error option \<Rightarrow> world \<Rightarrow> (error + response) \<times> world" where
  "retry_loop e rq [] last_err w = (Inl (RetriesExhausted last_err), w)"
| "retry_loop e rq (attempt # rest) last_err w =
     (case try_block e rq attempt w of
        (Return r, w1) \<Rightarrow> (Inr r, w1)
      | (Continue, w1) \<Rightarrow> retry_loop e rq rest last_err w1
      | (Raised err, w1) \<Rightarrow>
          (case compute_backoff e attempt w1 of
             (wait_s, w2) \<Rightarrow> retry_loop e rq rest (Some err) (sleep wait_s w2)))"

definition request_with_retry :: "env \<Rightarrow> request \<Rightarrow> world \<Rightarrow> (error + response) \<times> world" where
  "request_with_retry e rq w = retry_loop e rq [1..MAX_RETRIES] None w"

subsection \<open>CSRF discovery\<close>

text \<open>
  \<open>extract_csrf_from_html\<close>: the five patterns in the order of the list \<open>patterns\<close>, searched
  ignoring case, then \<open>SIGNED_TOKEN_RE\<close>. \<open>search_patterns\<close> is the \<open>for p in patterns\<close> loop.
\<close>

definition patterns :: "pattern list" where
  "patterns = [InputCsrfToken, MetaCsrfToken, XCsrfTokenKV, CsrfTokenKV, CsrfTokenCamelKV]"

fun search_patterns :: "env \<Rightarrow> pattern list \<Rightarrow> string \<Rightarrow> string option" where
  "search_patterns e [] html = None"
| "search_patterns e (p # ps) html =
     (case re_search e p html of
        Some m \<Rightarrow> Some (m 1)
      | None \<Rightarrow> search_patterns e ps html)"

definition extract_csrf_from_html :: "env \<Rightarrow> string \<Rightarrow> string option" where
  "extract_csrf_from_html e html =
     (case search_patterns e patterns html of
        Some tok \<Rightarrow> Some tok
      | None \<Rightarrow>
          (case re_search e SIGNED_TOKEN_RE html of
             Some m \<Rightarrow> Some (m 0)
           | None \<Rightarrow> None))"

definition extract_csrf_from_js_text :: "env \<Rightarrow> string \<Rightarrow> string option" where
  "extract_csrf_from_js_text e txt =
     (case re_search e SIGNED_TOKEN_RE txt of Some m \<Rightarrow> Some (m 0) | None \<Rightarrow> None)"

text \<open>\<open>find_script_srcs\<close>: the loop that keeps the first occurrence of each URL.\<close>

fun unique_loop :: "string list \<Rightarrow> string set \<Rightarrow> string list \<Rightarrow> string list" where
  "unique_loop [] seen out = out"
| "unique_loop (u # us) seen out =
     (if u \<notin> seen then unique_loop us (insert u seen) (out @ [u]) else unique_loop us seen out)"

definition find_script_srcs :: "env \<Rightarrow> string \<Rightarrow> string list" where
  "find_script_srcs e html =
     (let srcs = re_findall e ScriptSrc html;
          urls = map (urljoin e BASE_URL) srcs
      in unique_loop urls {} [])"

definition get_request :: "string \<Rightarrow> request" where
  "get_request url = \<lparr>req_method = ''GET'', req_url = url, req_csrf = None, req_data = []\<rparr>"

definition write_file :: "string \<Rightarrow> content \<Rightarrow> world \<Rightarrow> world" where
  "write_file path c w = emit (Wrote path c) (w\<lparr>fs := (fs w)(path \<mapsto> c)\<rparr>)"

text \<open>
  The loop \<open>for url in script_urls[:25]\<close> of \<open>bootstrap_and_find_csrf\<close>. \<open>Inr None\<close> is the
  loop running to its end; a fault of \<open>session.get\<close> is not caught. \<open>if token:\<close> is false
  for the empty string.
\<close>

fun scan_scripts :: "env \<Rightarrow> string list \<Rightarrow> world \<Rightarrow> (error + string option) \<times> world" where
  "scan_scripts e [] w = (Inr None, w)"
| "scan_scripts e (url # urls) w =
     (case session_request e (get_request url) w of
        (Fault msg, w1) \<Rightarrow> (Inl (TransportError msg), w1)
      | (Resp rr, w1) \<Rightarrow>
          if status_code rr \<noteq> 200 then scan_scripts e urls w1
          else
            (case extract_csrf_from_js_text e (text_body rr) of
               Some token \<Rightarrow>
                 if token \<noteq> [] then (Inr (Some token), w1)
                 else scan_scripts e urls (sleep (1/10) w1)
             | None \<Rightarrow> scan_scripts e urls (sleep (1/10) w1)))"

definition scan_js_bundles :: "env \<Rightarrow> string \<Rightarrow> world \<Rightarrow> (error + string) \<times> world" where
  "scan_js_bundles e html w =
     (let script_urls = find_script_srcs e html
      in case scan_scripts e (take 25 script_urls) w of
           (Inl err, w1) \<Rightarrow> (Inl err, w1)
         | (Inr (Some token), w1) \<Rightarrow> (Inr token, w1)
         | (Inr None, w1) \<Rightarrow> (Inl CsrfNotFound, w1))"

definition bootstrap_and_find_csrf :: "env \<Rightarrow> world \<Rightarrow> (error + string) \<times> world" where
  "bootstrap_and_find_csrf e w =
     (case session_request e (get_request BASE_URL) w of
        (Fault msg, w1) \<Rightarrow> (Inl (TransportError msg), w1)
      | (Resp r, w1) \<Rightarrow>
          (case raise_for_status r of
             Some err \<Rightarrow> (Inl err, w1)
           | None \<Rightarrow>
               (let w2 = write_file ''./scraping/debug_bootstrap.html'' (TextDoc (text_body r)) w1
                in case extract_csrf_from_html e (text_body r) of
                     Some csrf \<Rightarrow>
                       if csrf \<noteq> [] then (Inr csrf, w2)
                       else scan_js_bundles e (text_body r) w2
                   | None \<Rightarrow> scan_js_bundles e (text_body r) w2)))"

subsection \<open>Fetching one page\<close>

definition post_products :: "env \<Rightarrow> string \<Rightarrow> (string \<times> string) list \<Rightarrow> world \<Rightarrow> (error + json) \<times> world" where
  "post_products e csrf payload w =
     (case request_with_retry e
             \<lparr>req_method = ''POST'', req_url = BASE_URL, req_csrf = Some csrf, req_data = payload\<rparr> w of
        (Inl err, w1) \<Rightarrow> (Inl err, w1)
      | (Inr r, w1) \<Rightarrow>
          (case json_body r of
             Some d \<Rightarrow> (Inr d, w1)
           | None \<Rightarrow> (Inl (NotJSON (snippet 500 (text_body r))), w1)))"

subsection \<open>Output layout\<close>

text \<open>
  \<open>safe_slug\<close> replaces every character outside letters, digits and \<open>_ - = .\<close> by an
  underscore. \<open>path_join\<close> is \<open>os.path.join\<close> of two components on a POSIX system.
\<close>

definition slug_char :: "char \<Rightarrow> bool" where
  "slug_char c \<longleftrightarrow>
     (let n = (of_char c :: nat)
      in (97 \<le> n \<and> n \<le> 122) \<or> (65 \<le> n \<and> n \<le> 90) \<or> (48 \<le> n \<and> n \<le> 57)
         \<or> c = CHR ''_'' \<or> c = CHR ''-'' \<or> c = CHR ''='' \<or> c = CHR ''.'')"

definition safe_slug :: "string \<Rightarrow> string" where
  "safe_slug s = map (\<lambda>c. if slug_char c then c else CHR ''_'') s"

definition path_join :: "string \<Rightarrow> string \<Rightarrow> string" where
  "path_join a b =
     (if b \<noteq> [] \<and> hd b = CHR ''/'' then b
      else if a = [] \<or> last a = CHR ''/'' then a @ b
      else a @ ''/'' @ b)"

record paths =
  root :: string
  data_jsonl :: string
  manifest_path :: string

definition make_out_paths :: "env \<Rightarrow> string \<Rightarrow> string \<Rightarrow> string \<Rightarrow> world \<Rightarrow> paths \<times> world" where
  "make_out_paths e base_out a rid w =
     (case local_date_yyyy_mm_dd e w of
        (dt, w1) \<Rightarrow>
          (let r = path_join (path_join (path_join (path_join base_out ''source=precodahora'')
                     (''anp='' @ safe_slug a)) (''dt='' @ dt)) (''run_id='' @ rid)
           in (\<lparr>root = r, data_jsonl = path_join r ''data.jsonl'',
                manifest_path = path_join r ''manifest.json''\<rparr>,
               emit (MadeDir r) w1)))"

subsection \<open>Values of the parsed response\<close>

text \<open>
  The built-ins the script applies to parsed JSON: truth value, \<open>x or []\<close>, \<open>len\<close>, \<open>int\<close>,
  iteration and \<open>dict.get\<close>. \<open>int\<close> of a string is the library's parser, a field of \<open>env\<close>.
\<close>

fun truthy :: "json \<Rightarrow> bool" where
  "truthy JNull = False"
| "truthy (JBool b) = b"
| "truthy (JInt n) = (n \<noteq> 0)"
| "truthy (JFloat x) = (x \<noteq> 0)"
| "truthy (JStr s) = (s \<noteq> [])"
| "truthy (JArr xs) = (xs \<noteq> [])"
| "truthy (JObj kvs) = (kvs \<noteq> [])"

definition or_empty_list :: "json \<Rightarrow> json" where
  "or_empty_list v = (if truthy v then v else JArr [])"

fun py_len :: "json \<Rightarrow> error + int" where
  "py_len (JStr s) = Inr (int (length s))"
| "py_len (JArr xs) = Inr (int (length xs))"
| "py_len (JObj kvs) = Inr (int (length kvs))"
| "py_len v = Inl TypeError"

fun py_int :: "env \<Rightarrow> json \<Rightarrow> error + int" where
  "py_int e (JInt n) = Inr n"
| "py_int e (JBool b) = Inr (if b then 1 else 0)"
| "py_int e (JFloat x) = Inr (if 0 \<le> x then \<lfloor>x\<rfloor> else \<lceil>x\<rceil>)"
| "py_int e (JStr s) = (case int_of_str e s of Some n \<Rightarrow> Inr n | None \<Rightarrow> Inl ValueError)"
| "py_int e v = Inl TypeError"

fun py_iter :: "json \<Rightarrow> error + json list" where
  "py_iter (JArr xs) = Inr xs"
| "py_iter (JStr s) = Inr (map (\<lambda>c. JStr [c]) s)"
| "py_iter (JObj kvs) = Inr (map (\<lambda>kv. JStr (fst kv)) kvs)"
| "py_iter v = Inl TypeError"

fun is_list :: "json \<Rightarrow> bool" where
  "is_list (JArr xs) = True"
| "is_list v = False"

fun dict_get :: "json \<Rightarrow> string \<Rightarrow> json \<Rightarrow> error + json" where
  "dict_get (JObj kvs) k d = Inr (case map_of kvs k of Some v \<Rightarrow> v | None \<Rightarrow> d)"
| "dict_get v k d = Inl AttributeError"

definition page_to_rows :: "int \<Rightarrow> string \<Rightarrow> string \<Rightarrow> query \<Rightarrow> json \<Rightarrow> error + row list" where
  "page_to_rows collected_at rid a query_meta d =
     (case dict_get d ''resultado'' JNull of
        Inl err \<Rightarrow> Inl err
      | Inr v \<Rightarrow>
          (case py_iter (or_empty_list v) of
             Inl err \<Rightarrow> Inl err
           | Inr items \<Rightarrow>
               Inr (map (\<lambda>item. \<lparr>row_collected_at_utc = collected_at, row_run_id = rid,
                                  row_source = ''precodahora'', row_anp = a,
                                  row_query = query_meta, row_raw = item\<rparr>) items)))"

subsection \<open>Collecting one fuel\<close>

definition the_query :: query where
  "the_query = \<lparr>horas = HORAS, latitude = LATITUDE, longitude = LONGITUDE, raio = RAIO,
                  ordenar = ORDENAR, pagina = 1\<rparr>"

definition payload :: "string \<Rightarrow> (string \<times> string) list" where
  "payload a =
     [(''horas'', ''72''), (''anp'', a), (''latitude'', ''-12.97111''), (''longitude'', ''-38.51083''),
      (''raio'', ''100''), (''pagina'', ''1''), (''ordenar'', ORDENAR)]"

definition remove_if_exists :: "string \<Rightarrow> world \<Rightarrow> world" where
  "remove_if_exists path w =
     (if path \<in> dom (fs w) then emit (Removed path) (w\<lparr>fs := (fs w)(path := None)\<rparr>) else w)"

definition append_jsonl :: "string \<Rightarrow> row list \<Rightarrow> world \<Rightarrow> world" where
  "append_jsonl path rows w =
     emit (Appended path rows)
       (w\<lparr>fs := (fs w)(path \<mapsto> Rows ((case fs w path of Some (Rows old) \<Rightarrow> old | _ \<Rightarrow> []) @ rows))\<rparr>)"

text \<open>
  The start of \<open>collect_one_page_per_fuel\<close>, up to the removal of an existing data file:
  the run identifier, the paths, the time stamp.
\<close>

definition run_setup :: "env \<Rightarrow> string \<Rightarrow> string \<Rightarrow> world \<Rightarrow> (string \<times> paths \<times> int) \<times> world" where
  "run_setup e base_out a w =
     (case new_uuid e w of
        (rid, w1) \<Rightarrow>
          (case make_out_paths e base_out a rid w1 of
             (ps, w2) \<Rightarrow>
               (case utc_now_iso e w2 of
                  (collected_at, w3) \<Rightarrow>
                    ((rid, ps, collected_at), remove_if_exists (data_jsonl ps) w3))))"

text \<open>
  The block under \<open># sanity checks\<close>: the three counters, then the test that \<open>resultado\<close>
  is a list. The default of \<open>registrosdaPagina\<close>, \<open>len(data.get("resultado") or [])\<close>, is
  computed before the lookup, whether or not the key is there. \<open>and_then\<close> runs the next
  statement unless the last one raised.
\<close>

definition and_then :: "error + 'a \<Rightarrow> ('a \<Rightarrow> error + 'b) \<Rightarrow> error + 'b" where
  "and_then x f = (case x of Inl err \<Rightarrow> Inl err | Inr v \<Rightarrow> f v)"

definition sanity_checks :: "env \<Rightarrow> json \<Rightarrow> error + (int \<times> int \<times> int)" where
  "sanity_checks e d =
     and_then (dict_get d ''totalPaginas'' (JInt 1)) (\<lambda>v1.
     and_then (py_int e v1) (\<lambda>total_pages.
     and_then (dict_get d ''totalRegistros'' (JInt 0)) (\<lambda>v2.
     and_then (py_int e v2) (\<lambda>total_registros.
     and_then (dict_get d ''resultado'' JNull) (\<lambda>v3.
     and_then (py_len (or_empty_list v3)) (\<lambda>n.
     and_then (dict_get d ''registrosdaPagina'' (JInt n)) (\<lambda>v4.
     and_then (py_int e v4) (\<lambda>page_count.
     and_then (dict_get d ''resultado'' JNull) (\<lambda>v5.
       if \<not> is_list (or_empty_list v5) then Inl ResultadoNotList
       else Inr (total_pages, total_registros, page_count))))))))))"

definition collect_one_page_per_fuel ::
  "env \<Rightarrow> string \<Rightarrow> string \<Rightarrow> string \<Rightarrow> world \<Rightarrow> (error + manifest) \<times> world" where
  "collect_one_page_per_fuel e csrf base_out a w =
     (case run_setup e base_out a w of
        ((rid, ps, collected_at), w1) \<Rightarrow>
          (case post_products e csrf (payload a) w1 of
             (Inl err, w2) \<Rightarrow> (Inl err, w2)
           | (Inr d, w2) \<Rightarrow>
               (case sanity_checks e d of
                  Inl err \<Rightarrow> (Inl err, w2)
                | Inr (total_pages, total_registros, page_count) \<Rightarrow>
                    (case page_to_rows collected_at rid a the_query d of
                       Inl err \<Rightarrow> (Inl err, w2)
                     | Inr rows \<Rightarrow>
                         (let w3 = append_jsonl (data_jsonl ps) rows w2;
                              m = \<lparr>run_id = rid, collected_at_utc = collected_at, anp = a,
                                   base_url = BASE_URL, out_root = root ps,
                                   data_file = ''data.jsonl'', manifest_query = the_query,
                                   totalPaginas_reported = total_pages,
                                   totalRegistros_reported = total_registros,
                                   registrosdaPagina_reported = page_count,
                                   rows_written = length rows\<rparr>
                          in (Inr m, write_file (manifest_path ps) (ManifestDoc m) w3))))))"

subsection \<open>The run\<close>

text \<open>
  The \<open>finally\<close> clause of the loop over the fuels: the pause, unless this is the last
  fuel. The clause has no \<open>except\<close> beside it, so an exception of the collection goes on
  after the pause.
\<close>

definition finally_pause :: "env \<Rightarrow> nat \<Rightarrow> world \<Rightarrow> world" where
  "finally_pause e idx w =
     (if idx < length FUELS
      then (case random_uniform e (12/10) (24/10) w of (sleep_s, w1) \<Rightarrow> sleep sleep_s w1)
      else w)"

fun fuel_loop ::
  "env \<Rightarrow> string \<Rightarrow> (nat \<times> string) list \<Rightarrow> overall \<Rightarrow> world \<Rightarrow> (error + overall) \<times> world" where
  "fuel_loop e csrf [] ov w = (Inr ov, w)"
| "fuel_loop e csrf ((idx, a) # rest) ov w =
     (case collect_one_page_per_fuel e csrf (OUT_DIR e) a w of
        (Inl err, w1) \<Rightarrow> (Inl err, finally_pause e idx w1)
      | (Inr m, w1) \<Rightarrow>
          fuel_loop e csrf rest (ov\<lparr>runs := runs ov @ [m]\<rparr>) (finally_pause e idx w1))"

definition overall_path :: "env \<Rightarrow> string" where
  "overall_path e = path_join (OUT_DIR e) ''overall_manifest.json''"

definition main :: "env \<Rightarrow> world \<Rightarrow> (error + unit) \<times> world" where
  "main e w =
     (case bootstrap_and_find_csrf e (emit (MadeDir (OUT_DIR e)) w) of
        (Inl err, w1) \<Rightarrow> (Inl err, w1)
      | (Inr csrf, w1) \<Rightarrow>
          (case utc_now_iso e w1 of
             (now, w2) \<Rightarrow>
               (case fuel_loop e csrf (enumerate 1 FUELS)
                       \<lparr>finished_at_utc = now, out_dir = abspath e (OUT_DIR e), runs = []\<rparr> w2 of
                  (Inl err, w3) \<Rightarrow> (Inl err, w3)
                | (Inr ov, w3) \<Rightarrow> (Inr (), write_file (overall_path e) (OverallDoc ov) w3))))"

section \<open>Vocabulary of the properties\<close>

text \<open>
  An attempt fails when the request raises or the status is from 400 to 599 (429 and 401
  among them); any other reply is returned to the caller.
\<close>

definition attempt_fails :: "reply \<Rightarrow> bool" where
  "attempt_fails rep =
     (case rep of Fault msg \<Rightarrow> True | Resp r \<Rightarrow> 400 \<le> status_code r \<and> status_code r < 600)"

definition nonneg_integer_string :: "string \<Rightarrow> bool" where
  "nonneg_integer_string s \<longleftrightarrow> s \<noteq> [] \<and> list_all is_decimal s"

text \<open>Waiting \<open>compute_backoff(attempt)\<close>: the value is drawn, then slept.\<close>

definition backoff_wait :: "env \<Rightarrow> int \<Rightarrow> world \<Rightarrow> world" where
  "backoff_wait e attempt w = (case compute_backoff e attempt w of (wait_s, w') \<Rightarrow> sleep wait_s w')"

text \<open>
  The exception, if any, that a reply makes the \<open>try\<close> block raise, and the last of them
  over a sequence of replies. A 429 raises none, unless its \<open>Retry-After\<close> passes
  \<open>isdigit\<close> and fails \<open>float\<close>.
\<close>

definition exception_of :: "reply \<Rightarrow> error option" where
  "exception_of rep =
     (case rep of
        Fault msg \<Rightarrow> Some (TransportError msg)
      | Resp r \<Rightarrow>
          if status_code r = 429 then
            (case retry_after r of
               Some ra \<Rightarrow> if isdigit ra \<and> \<not> list_all is_decimal ra then Some ValueError else None
             | None \<Rightarrow> None)
          else if status_code r = 401 then Some (Unauthorized (snippet 300 (text_body r)))
          else raise_for_status r)"

definition last_exception :: "reply list \<Rightarrow> error option" where
  "last_exception reps =
     (let raised = List.map_filter exception_of reps
      in if raised = [] then None else Some (last raised))"

definition keep_last :: "error option \<Rightarrow> reply \<Rightarrow> error option" where
  "keep_last le rep = (case exception_of rep of Some err \<Rightarrow> Some err | None \<Rightarrow> le)"

text \<open>The requests among the effects, in order.\<close>

fun requests_of :: "event list \<Rightarrow> request list" where
  "requests_of [] = []"
| "requests_of (Sent rq # evs) = rq # requests_of evs"
| "requests_of (ev # evs) = requests_of evs"

text \<open>
  The search for the token in the words of the specification, over the replies to the
  script requests in their order: the markup first; then the scripts one after the other
  up to the first that settles the search, a reply with status 200 in which
  \<open>SIGNED_TOKEN_RE\<close> is found, or a request that raised. The second component is the number
  of scripts requested.
\<close>

definition markup_token :: "env \<Rightarrow> string \<Rightarrow> string option" where
  "markup_token e html =
     (case extract_csrf_from_html e html of
        Some tok \<Rightarrow> if tok \<noteq> [] then Some tok else None
      | None \<Rightarrow> None)"

definition script_token :: "env \<Rightarrow> reply \<Rightarrow> string option" where
  "script_token e rep =
     (case rep of
        Fault msg \<Rightarrow> None
      | Resp rr \<Rightarrow>
          if status_code rr = 200 then
            (case extract_csrf_from_js_text e (text_body rr) of
               Some tok \<Rightarrow> if tok \<noteq> [] then Some tok else None
             | None \<Rightarrow> None)
          else None)"

definition settles :: "env \<Rightarrow> reply \<Rightarrow> bool" where
  "settles e rep = (case rep of Fault msg \<Rightarrow> True | Resp rr \<Rightarrow> script_token e rep \<noteq> None)"

definition scan_outcome :: "env \<Rightarrow> reply list \<Rightarrow> (error + string option) \<times> nat" where
  "scan_outcome e reps =
     (case dropWhile (\<lambda>rep. \<not> settles e rep) reps of
        [] \<Rightarrow> (Inr None, length reps)
      | Fault msg # later \<Rightarrow> (Inl (TransportError msg), length reps - length later)
      | Resp rr # later \<Rightarrow> (Inr (script_token e (Resp rr)), length reps - length later))"

definition two_tier_search :: "env \<Rightarrow> string \<Rightarrow> reply list \<Rightarrow> (error + string) \<times> nat" where
  "two_tier_search e html reps =
     (case markup_token e html of
        Some tok \<Rightarrow> (Inr tok, 0)
      | None \<Rightarrow>
          (case scan_outcome e reps of
             (Inl err, n) \<Rightarrow> (Inl err, n)
           | (Inr (Some tok), n) \<Rightarrow> (Inr tok, n)
           | (Inr None, n) \<Rightarrow> (Inl CsrfNotFound, n)))"

section \<open>Test environments\<close>

text \<open>
  A server that answers the first requests with the replies of a list and every later one
  with a fixed reply; responses with a status only, pages, JSON answers; an environment
  whose regular-expression engine finds a token in the texts \<open>meta\<close> and \<open>signed\<close> and two
  scripts in the text \<open>scripts\<close>, whose random numbers are all one half and whose clock
  advances by a second at each reading.
\<close>

definition script :: "reply list \<Rightarrow> reply \<Rightarrow> nat \<Rightarrow> reply" where
  "script xs d i = (if i < length xs then xs ! i else d)"

definition plain :: "int \<Rightarrow> response" where
  "plain st = \<lparr>status_code = st, retry_after = None, text_body = [], json_body = None\<rparr>"

definition page :: "string \<Rightarrow> response" where
  "page body = \<lparr>status_code = 200, retry_after = None, text_body = body, json_body = None\<rparr>"

definition json_page :: "json \<Rightarrow> response" where
  "json_page d = \<lparr>status_code = 200, retry_after = None, text_body = [], json_body = Some d\<rparr>"

definition test_env :: "(nat \<Rightarrow> reply) \<Rightarrow> env" where
  "test_env srv = \<lparr>server = srv, rand = (\<lambda>k. 1/2), utc_clock = (\<lambda>k. 1000 + int k),
     local_date = (\<lambda>k. ''2026-01-01''), uuid4 = (\<lambda>k. replicate (Suc k) CHR ''u''),
     re_search = (\<lambda>p s. if p = MetaCsrfToken \<and> s = ''meta'' then Some (\<lambda>g. ''tok'')
                          else if p = SIGNED_TOKEN_RE \<and> s = ''signed'' then Some (\<lambda>g. ''Im.a.b'')
                          else None),
     re_findall = (\<lambda>p s. if p = ScriptSrc \<and> s = ''scripts'' then [''a.js'', ''b.js'', ''a.js''] else []),
     urljoin = (\<lambda>b s. b @ s),
     int_of_str = (\<lambda>s. None), abspath = (\<lambda>p. p), OUT_DIR = ''out''\<rparr>"

definition world0 :: world where
  "world0 = \<lparr>sent = 0, drawn = 0, clock_reads = 0, ids = 0, trace = [], fs = Map.empty\<rparr>"

definition probe :: request where
  "probe = \<lparr>req_method = ''POST'', req_url = BASE_URL, req_csrf = Some ''tok'',
             req_data = payload ''GASOLINA''\<rparr>"

definition retry_after_5 :: response where
  "retry_after_5 = (plain 429)\<lparr>retry_after := Some ''5''\<rparr>"

definition five_then_ok :: env where
  "five_then_ok = test_env (script [Resp retry_after_5, Resp (plain 429)] (Resp (plain 200)))"

definition limited_twice :: env where
  "limited_twice = test_env (script [Resp (plain 429), Resp (plain 429)] (Resp (plain 200)))"

definition always_401 :: env where
  "always_401 = test_env (\<lambda>k. Resp (plain 401))"

definition always_429 :: env where
  "always_429 = test_env (\<lambda>k. Resp (plain 429))"

definition mixed_failures :: env where
  "mixed_failures =
     test_env (script [Resp (plain 500), Fault ''timeout'', Resp (plain 429)] (Resp (plain 429)))"

definition signed_404 :: response where
  "signed_404 = (page ''signed'')\<lparr>status_code := 404\<rparr>"

definition scripts_404 :: env where
  "scripts_404 = test_env (script [Resp (page ''scripts''), Resp signed_404, Resp (page ''nothing'')]
                    (Resp (page ''nothing'')))"

definition scripts_ok :: env where
  "scripts_ok = test_env (script [Resp (page ''scripts''), Resp (page ''nothing''), Resp (page ''signed'')]
                    (Resp (page ''nothing'')))"

definition ok_data :: "json list \<Rightarrow> json" where
  "ok_data items = JObj [(''resultado'', JArr items), (''totalPaginas'', JInt 3)]"

definition bad_data :: json where
  "bad_data = JObj [(''resultado'', JStr ''broken'')]"

definition null_resultado :: env where
  "null_resultado = test_env (\<lambda>k. Resp (json_page (JObj [(''resultado'', JNull)])))"

definition string_resultado :: env where
  "string_resultado = test_env (\<lambda>k. Resp (json_page bad_data))"

definition list_resultado :: env where
  "list_resultado = test_env (\<lambda>k. Resp (json_page (ok_data [JInt 1, JInt 2])))"

definition happy_run :: env where
  "happy_run = test_env (script [Resp (page ''meta'')] (Resp (json_page (ok_data [JInt 7]))))"

definition second_fuel_malformed :: env where
  "second_fuel_malformed =
     test_env (script [Resp (page ''meta''), Resp (json_page (ok_data [JInt 7])),
                       Resp (json_page bad_data)]
                (Resp (json_page (ok_data [JInt 7]))))"

definition first_fuel_unauthorized :: env where
  "first_fuel_unauthorized = test_env (script [Resp (page ''meta'')] (Resp (plain 401)))"

definition post_for :: "string \<Rightarrow> request" where
  "post_for a = \<lparr>req_method = ''POST'', req_url = BASE_URL, req_csrf = Some ''tok'',
                  req_data = payload a\<rparr>"

section \<open>Fields of the world after each operation\<close>

lemma requests_of_append [simp]: "requests_of (xs @ ys) = requests_of xs @ requests_of ys"
  by (induction xs rule: requests_of.induct) simp_all

lemma emit_fields [simp]:
  "sent (emit ev w) = sent w" "drawn (emit ev w) = drawn w"
  "clock_reads (emit ev w) = clock_reads w" "ids (emit ev w) = ids w"
  "fs (emit ev w) = fs w" "trace (emit ev w) = trace w @ [ev]"
  by (simp_all add: emit_def)

lemma sleep_fields [simp]:
  "clock_reads (sleep d w) = clock_reads w" "ids (sleep d w) = ids w" "fs (sleep d w) = fs w"
  by (simp_all add: sleep_def)

lemma trace_sleep [simp]: "trace (sleep d w) = trace w @ [Slept d]"
  by (simp add: sleep_def emit_def)

lemma sent_sleep [simp]: "sent (sleep d w) = sent w"
  by (simp add: sleep_def emit_def)

lemma drawn_sleep [simp]: "drawn (sleep d w) = drawn w"
  by (simp add: sleep_def emit_def)

lemma session_request_simps [simp]:
  "fst (session_request e rq w) = server e (sent w)"
  "sent (snd (session_request e rq w)) = Suc (sent w)"
  "trace (snd (session_request e rq w)) = trace w @ [Sent rq]"
  "drawn (snd (session_request e rq w)) = drawn w"
  by (simp_all add: session_request_def emit_def)

lemma session_request_fields [simp]:
  "clock_reads (snd (session_request e rq w)) = clock_reads w"
  "ids (snd (session_request e rq w)) = ids w"
  "fs (snd (session_request e rq w)) = fs w"
  by (simp_all add: session_request_def)

lemma compute_backoff_world [simp]:
  "sent (snd (compute_backoff e a w)) = sent w"
  "trace (snd (compute_backoff e a w)) = trace w"
  "drawn (snd (compute_backoff e a w)) = Suc (drawn w)"
  "fst (compute_backoff e a w) = backoff_value a (1/4 + 1/2 * rand e (drawn w))"
  by (simp_all add: compute_backoff_def random_uniform_def)

lemma compute_backoff_fields [simp]:
  "clock_reads (snd (compute_backoff e a w)) = clock_reads w"
  "ids (snd (compute_backoff e a w)) = ids w"
  "fs (snd (compute_backoff e a w)) = fs w"
  by (simp_all add: compute_backoff_def random_uniform_def)

lemma backoff_wait_world [simp]:
  "sent (backoff_wait e a w) = sent w"
  "trace (backoff_wait e a w) = trace w @ [Slept (backoff_value a (1/4 + 1/2 * rand e (drawn w)))]"
  "drawn (backoff_wait e a w) = Suc (drawn w)"
  by (simp_all add: backoff_wait_def split_beta)

lemma write_file_simps [simp]:
  "sent (write_file p c w) = sent w"
  "trace (write_file p c w) = trace w @ [Wrote p c]"
  by (simp_all add: write_file_def emit_def)

lemma write_file_fields [simp]:
  "clock_reads (write_file p c w) = clock_reads w" "ids (write_file p c w) = ids w"
  "drawn (write_file p c w) = drawn w"
  "fs (write_file p c w) = (fs w)(p \<mapsto> c)"
  by (simp_all add: write_file_def)

lemma append_jsonl_fields [simp]:
  "clock_reads (append_jsonl p rows w) = clock_reads w" "ids (append_jsonl p rows w) = ids w"
  "sent (append_jsonl p rows w) = sent w" "drawn (append_jsonl p rows w) = drawn w"
  "trace (append_jsonl p rows w) = trace w @ [Appended p rows]"
  by (simp_all add: append_jsonl_def)

lemma remove_if_exists_fields [simp]:
  "clock_reads (remove_if_exists p w) = clock_reads w" "ids (remove_if_exists p w) = ids w"
  "sent (remove_if_exists p w) = sent w" "drawn (remove_if_exists p w) = drawn w"
  by (simp_all add: remove_if_exists_def)

lemma finally_pause_fields [simp]:
  "clock_reads (finally_pause e idx w) = clock_reads w" "ids (finally_pause e idx w) = ids w"
  "sent (finally_pause e idx w) = sent w" "fs (finally_pause e idx w) = fs w"
  "requests_of (trace (finally_pause e idx w)) = requests_of (trace w)"
  by (simp_all add: finally_pause_def random_uniform_def sleep_def)

lemma map_upt_Suc_shift: "map f [0..<Suc n] = f 0 # map (\<lambda>k. f (Suc k)) [0..<n]"
  by (simp add: upt_conv_Cons map_Suc_upt[symmetric] del: upt_Suc)

lemma upto_MAX_RETRIES: "[1..MAX_RETRIES] = [1, 2, 3, 4, 5, 6]"
  unfolding MAX_RETRIES_def by code_simp

section \<open>Backoff\<close>

lemma backoff_base_nonneg: "0 \<le> backoff_base n"
  by (simp add: backoff_base_def MAX_BACKOFF_SECONDS_def BASE_BACKOFF_SECONDS_def)

lemma backoff_base_pos_attempt:
  "1 \<le> n \<Longrightarrow> backoff_base n = min MAX_BACKOFF_SECONDS (BASE_BACKOFF_SECONDS * 2 ^ nat (n - 1))"
  by (simp add: backoff_base_def power_int_def)

lemma backoff_base_small: 
  assumes "1 \<le> n" "n \<le> 5" shows "backoff_base n \<le> 32"
proof -
  have "nat (n - 1) \<le> 4" using assms by simp
  then have "(2::real) ^ nat (n - 1) \<le> 2 ^ 4" by (intro power_increasing) simp_all
  then show ?thesis
    using assms by (simp add: backoff_base_pos_attempt BASE_BACKOFF_SECONDS_def MAX_BACKOFF_SECONDS_def)
qed

lemma backoff_base_capped:
  assumes "6 \<le> n" shows "backoff_base n = MAX_BACKOFF_SECONDS"
proof -
  have "5 \<le> nat (n - 1)" using assms by simp
  then have "(2::real) ^ 5 \<le> 2 ^ nat (n - 1)" by (intro power_increasing) simp_all
  then show ?thesis
    using assms by (simp add: backoff_base_pos_attempt BASE_BACKOFF_SECONDS_def MAX_BACKOFF_SECONDS_def)
qed




section \<open>The retry loop\<close>

lemma nonneg_integer_string_isdigit: "nonneg_integer_string s \<Longrightarrow> s \<noteq> [] \<and> isdigit s"
  by (induction s) (auto simp: nonneg_integer_string_def isdigit_def isdigit_char_def list_all_iff)

lemma retry_loop_Cons:
  "retry_loop e rq (attempt # rest) last_err w =
     (case try_block e rq attempt w of
        (Return r, w1) \<Rightarrow> (Inr r, w1)
      | (Continue, w1) \<Rightarrow> retry_loop e rq rest last_err w1
      | (Raised err, w1) \<Rightarrow> retry_loop e rq rest (Some err) (backoff_wait e attempt w1))"
  by (simp add: backoff_wait_def split: prod.splits attempt_result.splits)

lemma try_block_429_integer:
  assumes "server e (sent w) = Resp r" "status_code r = 429" "retry_after r = Some ra"
    "nonneg_integer_string ra"
  shows "try_block e rq attempt w = (Continue, sleep (real (decimal_value ra)) (snd (session_request e rq w)))"
  using assms nonneg_integer_string_isdigit[OF assms(4)]
  by (simp add: try_block_def session_request_def float_of_digits_def nonneg_integer_string_def)

lemma try_block_429_other:
  assumes "server e (sent w) = Resp r" "status_code r = 429"
    "\<forall>ra. retry_after r = Some ra \<longrightarrow> \<not> nonneg_integer_string ra"
  shows "try_block e rq attempt w = (Continue, backoff_wait e attempt (snd (session_request e rq w)))
       \<or> try_block e rq attempt w = (Raised ValueError, snd (session_request e rq w))"
  using assms
  by (auto simp add: try_block_def session_request_def float_of_digits_def nonneg_integer_string_def
      backoff_wait_def isdigit_def split: option.splits prod.splits)

lemma rate_limited_integer_step:
  assumes "server e (sent w) = Resp r" "status_code r = 429" "retry_after r = Some ra"
    "nonneg_integer_string ra"
  shows "retry_loop e rq (attempt # rest) le w
           = retry_loop e rq rest le (sleep (real (decimal_value ra)) (snd (session_request e rq w)))"
  using try_block_429_integer[OF assms, of rq attempt] by simp

lemma rate_limited_backoff_step:
  assumes "server e (sent w) = Resp r" "status_code r = 429"
    "\<forall>ra. retry_after r = Some ra \<longrightarrow> \<not> nonneg_integer_string ra"
  shows "\<exists>le'. retry_loop e rq (attempt # rest) le w
           = retry_loop e rq rest le' (backoff_wait e attempt (snd (session_request e rq w)))"
  using try_block_429_other[OF assms, of rq attempt]
  by (auto simp add: backoff_wait_def split_beta)

lemma two_rate_limits_then_ok:
  assumes "server e (sent w) = Resp r1" "status_code r1 = 429" "retry_after r1 = None"
    "server e (sent w + 1) = Resp r2" "status_code r2 = 429" "retry_after r2 = None"
    "server e (sent w + 2) = Resp r3" "status_code r3 = 200"
  shows "fst (request_with_retry e rq w) = Inr r3
       \<and> trace (snd (request_with_retry e rq w))
           = trace w @ [Sent rq, Slept (backoff_value 1 (1/4 + 1/2 * rand e (drawn w))),
                        Sent rq, Slept (backoff_value 2 (1/4 + 1/2 * rand e (drawn w + 1))),
                        Sent rq]"
  using assms
  by (simp add: request_with_retry_def upto_MAX_RETRIES try_block_def session_request_def
      compute_backoff_def random_uniform_def raise_for_status_def sleep_def emit_def)


lemma five: "nonneg_integer_string ''5''" "decimal_value ''5'' = 5"
  by (simp_all add: nonneg_integer_string_def is_decimal_def decimal_value_def digit_value_def)


lemmas eval_retry = request_with_retry_def upto_MAX_RETRIES try_block_def session_request_def
  compute_backoff_def random_uniform_def raise_for_status_def sleep_def emit_def
  backoff_value_def backoff_base_def MAX_BACKOFF_SECONDS_def BASE_BACKOFF_SECONDS_def
  test_env_def script_def plain_def world0_def snippet_def

text \<open>
  Claim C2 at a server that always answers 401. The \<open>raise\<close> of the 401 branch is inside
  the \<open>try\<close> block, so \<open>except Exception\<close> catches it: the request is sent six times,
  with a backoff sleep after each, and the error raised in the end is the one of the
  exhausted retries. The claim says one attempt, no sleep, and a fatal error at once.
\<close>

theorem unauthorized_is_retried:
  "request_with_retry always_401 probe world0
     = (Inl (RetriesExhausted (Some (Unauthorized []))),
        world0\<lparr>sent := 6, drawn := 6,
               trace := [Sent probe, Slept 3, Sent probe, Slept 6, Sent probe, Slept 12,
                         Sent probe, Slept 24, Sent probe, Slept 48, Sent probe, Slept 60]\<rparr>)"
  by (simp add: always_401_def eval_retry)

lemma step_continue:
  assumes "try_block e rq attempt w = (Continue, w1)" "exception_of (server e (sent w)) = None"
  shows "retry_loop e rq (attempt # rest) le w
           = retry_loop e rq rest (keep_last le (server e (sent w))) w1"
  using assms by (simp add: keep_last_def)

lemma step_raised:
  assumes "try_block e rq attempt w = (Raised err, w1)"
    "exception_of (server e (sent w)) = Some err"
  shows "retry_loop e rq (attempt # rest) le w
           = retry_loop e rq rest (keep_last le (server e (sent w))) (backoff_wait e attempt w1)"
  using assms by (simp add: keep_last_def backoff_wait_def split_beta)

lemma raised_stepE:
  assumes "try_block e rq attempt w = (Raised err, snd (session_request e rq w))"
    "exception_of (server e (sent w)) = Some err"
  shows "\<exists>d w1. retry_loop e rq (attempt # rest) le w
                  = retry_loop e rq rest (keep_last le (server e (sent w))) w1
               \<and> sent w1 = Suc (sent w) \<and> trace w1 = trace w @ [Sent rq, Slept d]"
proof -
  let ?w1 = "backoff_wait e attempt (snd (session_request e rq w))"
  have "retry_loop e rq (attempt # rest) le w
          = retry_loop e rq rest (keep_last le (server e (sent w))) ?w1"
    by (rule step_raised[OF assms])
  moreover have "sent ?w1 = Suc (sent w)" by simp
  moreover have "trace ?w1 = trace w @ [Sent rq, Slept (backoff_value attempt (1/4 + 1/2 * rand e (drawn w)))]"
    by simp
  ultimately show ?thesis by blast
qed

lemma continue_stepE:
  assumes "try_block e rq attempt w = (Continue, w1)"
    "exception_of (server e (sent w)) = None"
    "sent w1 = Suc (sent w)" "trace w1 = trace w @ [Sent rq, Slept d]"
  shows "\<exists>d w1. retry_loop e rq (attempt # rest) le w
                  = retry_loop e rq rest (keep_last le (server e (sent w))) w1
               \<and> sent w1 = Suc (sent w) \<and> trace w1 = trace w @ [Sent rq, Slept d]"
  using step_continue[OF assms(1,2)] assms(3,4) by blast

lemma retry_step_fails:
  assumes "attempt_fails (server e (sent w))"
  shows "\<exists>d w1. retry_loop e rq (attempt # rest) le w
                  = retry_loop e rq rest (keep_last le (server e (sent w))) w1
               \<and> sent w1 = Suc (sent w) \<and> trace w1 = trace w @ [Sent rq, Slept d]"
proof (cases "server e (sent w)")
  case (Fault msg)
  then have "try_block e rq attempt w = (Raised (TransportError msg), snd (session_request e rq w))"
    by (simp add: try_block_def session_request_def)
  moreover from Fault have "exception_of (server e (sent w)) = Some (TransportError msg)"
    by (simp add: exception_of_def)
  ultimately show ?thesis by (rule raised_stepE)
next
  case (Resp r)
  with assms have range: "400 \<le> status_code r" "status_code r < 600"
    by (simp_all add: attempt_fails_def)
  let ?w1 = "snd (session_request e rq w)"
  consider (limited) "status_code r = 429" | (unauth) "status_code r = 401"
    | (other) "status_code r \<noteq> 429" "status_code r \<noteq> 401" by blast
  then show ?thesis
  proof cases
    case limited
    show ?thesis
    proof (cases "\<exists>ra. retry_after r = Some ra \<and> isdigit ra")
      case True
      then obtain ra where ra: "retry_after r = Some ra" "isdigit ra" by blast
      then have ne: "ra \<noteq> []" by (simp add: isdigit_def)
      show ?thesis
      proof (cases "list_all is_decimal ra")
        case True
        with Resp limited ra ne
        have "try_block e rq attempt w = (Continue, sleep (real (decimal_value ra)) ?w1)"
          by (simp add: try_block_def session_request_def float_of_digits_def)
        moreover from Resp limited ra True have "exception_of (server e (sent w)) = None"
          by (simp add: exception_of_def)
        ultimately show ?thesis by (rule continue_stepE) simp_all
      next
        case False
        with Resp limited ra ne
        have "try_block e rq attempt w = (Raised ValueError, ?w1)"
          by (simp add: try_block_def session_request_def float_of_digits_def)
        moreover from Resp limited ra False have "exception_of (server e (sent w)) = Some ValueError"
          by (simp add: exception_of_def)
        ultimately show ?thesis by (rule raised_stepE)
      qed
    next
      case False
      with Resp limited
      have "try_block e rq attempt w = (Continue, backoff_wait e attempt ?w1)"
        by (auto simp add: try_block_def session_request_def backoff_wait_def
            split: option.splits prod.splits)
      moreover from Resp limited False have "exception_of (server e (sent w)) = None"
        by (auto simp add: exception_of_def split: option.splits)
      ultimately show ?thesis by (rule continue_stepE) simp_all
    qed
  next
    case unauth
    with Resp
    have "try_block e rq attempt w = (Raised (Unauthorized (snippet 300 (text_body r))), ?w1)"
      by (simp add: try_block_def session_request_def)
    moreover from Resp unauth
    have "exception_of (server e (sent w)) = Some (Unauthorized (snippet 300 (text_body r)))"
      by (simp add: exception_of_def)
    ultimately show ?thesis by (rule raised_stepE)
  next
    case other
    with Resp range
    have "try_block e rq attempt w = (Raised (HTTPError (status_code r)), ?w1)"
      by (simp add: try_block_def session_request_def raise_for_status_def)
    moreover from Resp other range
    have "exception_of (server e (sent w)) = Some (HTTPError (status_code r))"
      by (simp add: exception_of_def raise_for_status_def)
    ultimately show ?thesis by (rule raised_stepE)
  qed
qed

lemma retry_loop_all_fail:
  "\<forall>k<length as. attempt_fails (server e (sent w + k)) \<Longrightarrow>
   \<exists>ds w'. retry_loop e rq as le w
              = (Inl (RetriesExhausted
                   (foldl keep_last le (map (\<lambda>k. server e (sent w + k)) [0..<length as]))), w')
          \<and> length ds = length as \<and> sent w' = sent w + length as
          \<and> trace w' = trace w @ concat (map (\<lambda>d. [Sent rq, Slept d]) ds)"
proof (induction as arbitrary: le w)
  case Nil
  show ?case by (rule exI[of _ "[]"]) simp
next
  case (Cons a as)
  from Cons.prems have "attempt_fails (server e (sent w))" by force
  from retry_step_fails[OF this, of rq a as le]
  obtain d w1 where step:
    "retry_loop e rq (a # as) le w = retry_loop e rq as (keep_last le (server e (sent w))) w1"
    "sent w1 = Suc (sent w)" "trace w1 = trace w @ [Sent rq, Slept d]"
    by blast
  have "\<forall>k<length as. attempt_fails (server e (sent w1 + k))"
  proof (intro allI impI)
    fix k assume "k < length as"
    then have "Suc k < length (a # as)" by simp
    with Cons.prems have "attempt_fails (server e (sent w + Suc k))" by blast
    then show "attempt_fails (server e (sent w1 + k))" by (simp add: step(2))
  qed
  from Cons.IH[OF this, of "keep_last le (server e (sent w))"]
  obtain ds w' where rest:
    "retry_loop e rq as (keep_last le (server e (sent w))) w1
       = (Inl (RetriesExhausted (foldl keep_last (keep_last le (server e (sent w)))
            (map (\<lambda>k. server e (sent w1 + k)) [0..<length as]))), w')"
    "length ds = length as" "sent w' = sent w1 + length as"
    "trace w' = trace w1 @ concat (map (\<lambda>d. [Sent rq, Slept d]) ds)"
    by blast
  have "map (\<lambda>k. server e (sent w + k)) [0..<length (a # as)]
          = server e (sent w) # map (\<lambda>k. server e (sent w1 + k)) [0..<length as]"
    using map_upt_Suc_shift[of "\<lambda>k. server e (sent w + k)" "length as"] by (simp add: step(2))
  with step rest show ?case
    by (intro exI[of _ "d # ds"] exI[of _ w']) simp
qed

lemma foldl_keep_last:
  "foldl keep_last le reps =
     (case List.map_filter exception_of reps of [] \<Rightarrow> le | x # xs \<Rightarrow> Some (last (x # xs)))"
proof (induction reps arbitrary: le)
  case Nil
  show ?case by (simp add: map_filter_simps)
next
  case (Cons r reps)
  have "foldl keep_last le (r # reps) = foldl keep_last (keep_last le r) reps" by simp
  also have "\<dots> = (case List.map_filter exception_of reps of
                      [] \<Rightarrow> keep_last le r | x # xs \<Rightarrow> Some (last (x # xs)))"
    by (rule Cons.IH)
  also have "\<dots> = (case List.map_filter exception_of (r # reps) of
                      [] \<Rightarrow> le | x # xs \<Rightarrow> Some (last (x # xs)))"
    by (cases "exception_of r"; cases "List.map_filter exception_of reps")
       (simp_all add: map_filter_simps keep_last_def)
  finally show ?case .
qed

lemma last_exception_foldl: "last_exception reps = foldl keep_last None reps"
  by (simp add: foldl_keep_last last_exception_def Let_def split: list.splits)

lemma six_failures:
  assumes "\<forall>k<6. attempt_fails (server e (sent w + k))"
  shows "\<exists>ds w'. request_with_retry e rq w
              = (Inl (RetriesExhausted (last_exception (map (\<lambda>k. server e (sent w + k)) [0..<6]))), w')
          \<and> length ds = 6 \<and> sent w' = sent w + 6
          \<and> trace w' = trace w @ concat (map (\<lambda>d. [Sent rq, Slept d]) ds)"
proof -
  have six: "length [1, 2, 3, 4, 5, 6::int] = 6" by simp
  have "\<forall>k<length [1, 2, 3, 4, 5, 6::int]. attempt_fails (server e (sent w + k))"
    using assms by simp
  from retry_loop_all_fail[OF this, of rq None]
  show ?thesis
    unfolding request_with_retry_def upto_MAX_RETRIES last_exception_foldl six .
qed






section \<open>Token discovery\<close>

lemma search_patterns_first:
  assumes "i < length ps" "re_search e (ps ! i) html = Some m"
    "\<forall>j<i. re_search e (ps ! j) html = None"
  shows "search_patterns e ps html = Some (m 1)"
  using assms
proof (induction ps arbitrary: i)
  case Nil
  then show ?case by simp
next
  case (Cons p ps)
  show ?case
  proof (cases i)
    case 0
    with Cons.prems show ?thesis by simp
  next
    case (Suc k)
    with Cons.prems have "re_search e p html = None" by auto
    moreover have "search_patterns e ps html = Some (m 1)"
    proof (rule Cons.IH)
      show "k < length ps" using Cons.prems Suc by simp
      show "re_search e (ps ! k) html = Some m" using Cons.prems Suc by simp
      show "\<forall>j<k. re_search e (ps ! j) html = None"
      proof (intro allI impI)
        fix j assume "j < k"
        then have "Suc j < i" using Suc by simp
        with Cons.prems(3) have "re_search e ((p # ps) ! Suc j) html = None" by blast
        then show "re_search e (ps ! j) html = None" by simp
      qed
    qed
    ultimately show ?thesis by simp
  qed
qed

lemma search_patterns_none:
  "\<forall>p\<in>set ps. re_search e p html = None \<Longrightarrow> search_patterns e ps html = None"
  by (induction ps) simp_all

text \<open>
  Claim C8. \<open>extract_csrf_from_html\<close> tries the five named patterns in their order and
  returns group 1 of the first that matches; when none matches it returns the whole match
  of \<open>SIGNED_TOKEN_RE\<close>; when that does not match either it returns \<open>None\<close>. It is a
  function of the text alone: it takes and returns no world, and has no error result.
\<close>

theorem token_extractor_contract:
  "patterns = [InputCsrfToken, MetaCsrfToken, XCsrfTokenKV, CsrfTokenKV, CsrfTokenCamelKV]
   \<and> (\<forall>i m. i < length patterns \<and> re_search e (patterns ! i) html = Some m
          \<and> (\<forall>j<i. re_search e (patterns ! j) html = None)
        \<longrightarrow> extract_csrf_from_html e html = Some (m 1))
   \<and> (\<forall>m. (\<forall>p\<in>set patterns. re_search e p html = None)
          \<and> re_search e SIGNED_TOKEN_RE html = Some m
        \<longrightarrow> extract_csrf_from_html e html = Some (m 0))
   \<and> ((\<forall>p\<in>set patterns. re_search e p html = None)
          \<and> re_search e SIGNED_TOKEN_RE html = None
        \<longrightarrow> extract_csrf_from_html e html = None)"
proof (intro conjI allI impI; (elim conjE)?)
  show "patterns = [InputCsrfToken, MetaCsrfToken, XCsrfTokenKV, CsrfTokenKV, CsrfTokenCamelKV]"
    by (rule patterns_def)
next
  fix i m
  assume "i < length patterns" "re_search e (patterns ! i) html = Some m"
    "\<forall>j<i. re_search e (patterns ! j) html = None"
  then have "search_patterns e patterns html = Some (m 1)" by (rule search_patterns_first)
  then show "extract_csrf_from_html e html = Some (m 1)"
    by (simp add: extract_csrf_from_html_def)
next
  fix m
  assume "\<forall>p\<in>set patterns. re_search e p html = None" "re_search e SIGNED_TOKEN_RE html = Some m"
  then show "extract_csrf_from_html e html = Some (m 0)"
    by (simp add: extract_csrf_from_html_def search_patterns_none)
next
  assume "\<forall>p\<in>set patterns. re_search e p html = None" "re_search e SIGNED_TOKEN_RE html = None"
  then show "extract_csrf_from_html e html = None"
    by (simp add: extract_csrf_from_html_def search_patterns_none)
qed

theorem token_extractor_contract_witness:
  "extract_csrf_from_html (test_env (\<lambda>k. Fault [])) ''meta'' = Some ''tok''
   \<and> extract_csrf_from_html (test_env (\<lambda>k. Fault [])) ''signed'' = Some ''Im.a.b''
   \<and> extract_csrf_from_html (test_env (\<lambda>k. Fault [])) ''nothing'' = None"
proof -
  let ?e = "test_env (\<lambda>k. Fault [])"
  note claim = token_extractor_contract[of ?e]
  have pats: "patterns ! 1 = MetaCsrfToken" "length patterns = 5" by (simp_all add: patterns_def)
  have a: "1 < length patterns \<and> re_search ?e (patterns ! 1) ''meta'' = Some (\<lambda>g. ''tok'')
        \<and> (\<forall>j<1. re_search ?e (patterns ! j) ''meta'' = None)"
    by (simp add: pats) (simp add: test_env_def patterns_def)
  have b: "(\<forall>p\<in>set patterns. re_search ?e p ''signed'' = None)
        \<and> re_search ?e SIGNED_TOKEN_RE ''signed'' = Some (\<lambda>g. ''Im.a.b'')"
    by (simp add: test_env_def patterns_def)
  have c: "(\<forall>p\<in>set patterns. re_search ?e p ''nothing'' = None)
        \<and> re_search ?e SIGNED_TOKEN_RE ''nothing'' = None"
    by (simp add: test_env_def patterns_def)
  have "extract_csrf_from_html ?e ''meta'' = Some ((\<lambda>g. ''tok'') (1::nat))"
    by (rule claim[THEN conjunct2, THEN conjunct1, rule_format, OF a])
  moreover have "extract_csrf_from_html ?e ''signed'' = Some ((\<lambda>g. ''Im.a.b'') (0::nat))"
    by (rule claim[THEN conjunct2, THEN conjunct2, THEN conjunct1, rule_format, OF b])
  moreover have "extract_csrf_from_html ?e ''nothing'' = None"
    by (rule claim[THEN conjunct2, THEN conjunct2, THEN conjunct2, rule_format, OF c])
  ultimately show ?thesis by simp
qed

lemma scan_outcome_Nil [simp]: "scan_outcome e [] = (Inr None, 0)"
  by (simp add: scan_outcome_def)

lemma scan_outcome_skip:
  "\<not> settles e rep \<Longrightarrow>
   scan_outcome e (rep # reps) = (fst (scan_outcome e reps), Suc (snd (scan_outcome e reps)))"
proof -
  assume ns: "\<not> settles e rep"
  have len: "length (dropWhile (\<lambda>rep. \<not> settles e rep) reps) \<le> length reps"
    by (rule length_dropWhile_le)
  show ?thesis
  proof (cases "dropWhile (\<lambda>rep. \<not> settles e rep) reps")
    case Nil
    show ?thesis using ns by (simp add: scan_outcome_def Nil)
  next
    case (Cons x later)
    with len have "length later < length reps" by simp
    then have "Suc (length reps) - length later = Suc (length reps - length later)" by simp
    then show ?thesis using ns by (cases x) (simp_all add: scan_outcome_def Cons)
  qed
qed

lemma scan_outcome_fault:
  "scan_outcome e (Fault msg # reps) = (Inl (TransportError msg), 1)"
  by (simp add: scan_outcome_def settles_def)

lemma scan_outcome_hit:
  "script_token e (Resp rr) \<noteq> None \<Longrightarrow>
   scan_outcome e (Resp rr # reps) = (Inr (script_token e (Resp rr)), 1)"
  by (simp add: scan_outcome_def settles_def)

lemma scan_scripts_outcome:
  "fst (scan_scripts e urls w)
     = fst (scan_outcome e (map (\<lambda>i. server e (sent w + i)) [0..<length urls]))
   \<and> sent (snd (scan_scripts e urls w))
     = sent w + snd (scan_outcome e (map (\<lambda>i. server e (sent w + i)) [0..<length urls]))
   \<and> requests_of (trace (snd (scan_scripts e urls w)))
     = requests_of (trace w)
       @ map get_request (take (snd (scan_outcome e (map (\<lambda>i. server e (sent w + i)) [0..<length urls]))) urls)"
proof (induction urls arbitrary: w)
  case Nil
  show ?case by simp
next
  case (Cons url urls)
  let ?reps = "\<lambda>w. map (\<lambda>i. server e (sent w + i)) [0..<length urls]"
  let ?w1 = "snd (session_request e (get_request url) w)"
  have shift: "map (\<lambda>i. server e (sent w + i)) [0..<length (url # urls)]
                 = server e (sent w) # ?reps ?w1"
    using map_upt_Suc_shift[of "\<lambda>i. server e (sent w + i)" "length urls"] by simp
  have shift_sleep: "?reps (sleep d ?w1) = ?reps ?w1" for d by simp
  show ?case
  proof (cases "server e (sent w)")
    case (Fault msg)
    then have "scan_scripts e (url # urls) w = (Inl (TransportError msg), ?w1)"
      by (simp add: session_request_def)
    then show ?thesis
      unfolding shift Fault scan_outcome_fault by simp
  next
    case (Resp rr)
    show ?thesis
    proof (cases "script_token e (Resp rr)")
      case (Some tok)
      then have "scan_scripts e (url # urls) w = (Inr (Some tok), ?w1)"
        using Resp
        by (simp add: session_request_def script_token_def split: if_splits option.splits)
      moreover have "scan_outcome e (Resp rr # ?reps ?w1) = (Inr (Some tok), 1)"
        using scan_outcome_hit[of e rr] Some by simp
      ultimately show ?thesis
        unfolding shift Resp by simp
    next
      case None
      then have ns: "\<not> settles e (Resp rr)" by (simp add: settles_def)
      have "\<exists>w2. scan_scripts e (url # urls) w = scan_scripts e urls w2
              \<and> sent w2 = Suc (sent w)
              \<and> requests_of (trace w2) = requests_of (trace w) @ [get_request url]"
      proof (cases "status_code rr = 200")
        case True
        with None Resp have "scan_scripts e (url # urls) w = scan_scripts e urls (sleep (1/10) ?w1)"
          by (simp add: session_request_def script_token_def split: if_splits option.splits)
        then show ?thesis by (intro exI[of _ "sleep (1/10) ?w1"]) simp
      next
        case False
        with Resp have "scan_scripts e (url # urls) w = scan_scripts e urls ?w1"
          by (simp add: session_request_def)
        then show ?thesis by (intro exI[of _ ?w1]) simp
      qed
      then obtain w2 where w2: "scan_scripts e (url # urls) w = scan_scripts e urls w2"
        "sent w2 = Suc (sent w)"
        "requests_of (trace w2) = requests_of (trace w) @ [get_request url]" by blast
      have reps: "?reps w2 = ?reps ?w1" by (simp add: w2(2))
      from Cons.IH[of w2] show ?thesis
        unfolding shift Resp scan_outcome_skip[OF ns] w2(1) reps
        by (simp add: w2)
    qed
  qed
qed

lemma scan_outcome_bound: "snd (scan_outcome e reps) \<le> length reps"
  by (simp add: scan_outcome_def split: list.splits reply.splits)

lemma scan_js_bundles_search:
  assumes "markup_token e html = None"
  shows "fst (scan_js_bundles e html w)
           = fst (two_tier_search e html
                   (map (\<lambda>i. server e (sent w + i)) [0..<length (take 25 (find_script_srcs e html))]))"
    and "requests_of (trace (snd (scan_js_bundles e html w)))
           = requests_of (trace w)
             @ map get_request
                 (take (snd (two_tier_search e html
                   (map (\<lambda>i. server e (sent w + i)) [0..<length (take 25 (find_script_srcs e html))])))
                   (take 25 (find_script_srcs e html)))"
proof -
  let ?urls = "take 25 (find_script_srcs e html)"
  let ?reps = "map (\<lambda>i. server e (sent w + i)) [0..<length ?urls]"
  note scan = scan_scripts_outcome[of e ?urls w]
  obtain res w' where sc: "scan_scripts e ?urls w = (res, w')" by (cases "scan_scripts e ?urls w")
  obtain out n where so: "scan_outcome e ?reps = (out, n)" by (cases "scan_outcome e ?reps")
  from scan sc so have res: "res = out" "requests_of (trace w') = requests_of (trace w) @ map get_request (take n ?urls)"
    by simp_all
  show "fst (scan_js_bundles e html w) = fst (two_tier_search e html ?reps)"
    using assms sc so res(1)
    by (simp add: scan_js_bundles_def two_tier_search_def Let_def split: sum.splits option.splits)
  show "requests_of (trace (snd (scan_js_bundles e html w)))
           = requests_of (trace w) @ map get_request (take (snd (two_tier_search e html ?reps)) ?urls)"
    using assms sc so res
    by (simp add: scan_js_bundles_def two_tier_search_def Let_def split: sum.splits option.splits)
qed



lemmas eval_bootstrap = bootstrap_and_find_csrf_def scan_js_bundles_def find_script_srcs_def
  extract_csrf_from_html_def extract_csrf_from_js_text_def patterns_def
  session_request_def raise_for_status_def write_file_def sleep_def emit_def get_request_def
  test_env_def script_def page_def world0_def Let_def


section \<open>Collecting one fuel\<close>

lemma sanity_checks_rejects:
  assumes "map_of kvs ''resultado'' = Some v" "truthy v" "\<not> is_list v"
  shows "\<exists>err. sanity_checks e (JObj kvs) = Inl err"
  using assms
  by (auto simp add: sanity_checks_def and_then_def or_empty_list_def split: sum.splits)

lemma sanity_checks_accepts:
  assumes res: "map_of kvs ''resultado'' = Some (JArr items)
             \<or> items = [] \<and> (\<forall>v. map_of kvs ''resultado'' = Some v \<longrightarrow> \<not> truthy v)"
    and tp: "and_then (dict_get (JObj kvs) ''totalPaginas'' (JInt 1)) (py_int e) = Inr tp"
    and tr: "and_then (dict_get (JObj kvs) ''totalRegistros'' (JInt 0)) (py_int e) = Inr tr"
    and pc: "and_then (dict_get (JObj kvs) ''registrosdaPagina'' (JInt (int (length items)))) (py_int e) = Inr pc"
  shows "sanity_checks e (JObj kvs) = Inr (tp, tr, pc)"
    and "and_then (dict_get (JObj kvs) ''resultado'' JNull) (\<lambda>v. py_iter (or_empty_list v)) = Inr items"
proof -
  have results: "or_empty_list (case map_of kvs ''resultado'' of Some v \<Rightarrow> v | None \<Rightarrow> JNull) = JArr items"
    using res by (auto simp add: or_empty_list_def split: option.splits)
  show "sanity_checks e (JObj kvs) = Inr (tp, tr, pc)"
    using tp tr pc by (simp add: sanity_checks_def and_then_def results split: sum.splits)
  show "and_then (dict_get (JObj kvs) ''resultado'' JNull) (\<lambda>v. py_iter (or_empty_list v)) = Inr items"
    by (simp add: and_then_def results)
qed


lemma first_attempt_returns:
  assumes "server e (sent w) = Resp r" "status_code r = 200"
  shows "request_with_retry e rq w = (Inr r, snd (session_request e rq w))"
  using assms
  by (simp add: request_with_retry_def upto_MAX_RETRIES try_block_def session_request_def
      raise_for_status_def)

lemma run_setup_sent: "sent (snd (run_setup e base a w)) = sent w"
  by (simp add: run_setup_def new_uuid_def make_out_paths_def local_date_yyyy_mm_dd_def
      utc_now_iso_def Let_def)

lemma post_products_first_reply:
  assumes "server e (sent w) = Resp r" "status_code r = 200" "json_body r = Some d"
  shows "fst (post_products e csrf pl w) = Inr d"
  using first_attempt_returns[OF assms(1,2)] assms(3) by (simp add: post_products_def)


lemmas eval_paths = make_out_paths_def path_join_def safe_slug_def slug_char_def
  local_date_yyyy_mm_dd_def

lemmas eval_fetch = post_products_def request_with_retry_def upto_MAX_RETRIES try_block_def
  session_request_def raise_for_status_def emit_def sleep_def

lemmas eval_collect = collect_one_page_per_fuel_def run_setup_def new_uuid_def utc_now_iso_def
  remove_if_exists_def append_jsonl_def write_file_def sanity_checks_def and_then_def
  or_empty_list_def page_to_rows_def Let_def

lemmas eval_env = test_env_def script_def json_page_def page_def plain_def world0_def ok_data_def


section \<open>The run\<close>

lemma fuel_loop_append:
  "fuel_loop e csrf (xs @ ys) ov w =
     (case fuel_loop e csrf xs ov w of
        (Inl err, w') \<Rightarrow> (Inl err, w')
      | (Inr ov', w') \<Rightarrow> fuel_loop e csrf ys ov' w')"
  by (induction xs arbitrary: ov w) (auto split: prod.splits sum.splits)

lemma enumerate_split:
  assumes "k < length xs"
  shows "enumerate 1 xs = take k (enumerate 1 xs) @ (Suc k, xs ! k) # drop (Suc k) (enumerate 1 xs)"
proof -
  have "k < length (enumerate 1 xs)" using assms by simp
  then have "enumerate 1 xs = take k (enumerate 1 xs) @ enumerate 1 xs ! k # drop (Suc k) (enumerate 1 xs)"
    by (rule id_take_nth_drop)
  moreover have "enumerate 1 xs ! k = (Suc k, xs ! k)" using assms by (simp add: nth_enumerate_eq)
  ultimately show ?thesis by simp
qed


lemma collect_good_reply:
  assumes "server e (sent w) = Resp (json_page (ok_data items))"
  shows "\<exists>m. fst (collect_one_page_per_fuel e csrf base a w) = Inr m"
    and "sent (snd (collect_one_page_per_fuel e csrf base a w)) = Suc (sent w)"
proof -
  obtain rid ps collected_at w1 where rs: "run_setup e base a w = ((rid, ps, collected_at), w1)"
    by (metis prod.collapse)
  with run_setup_sent[of e base a w] have w1: "sent w1 = sent w" by simp
  let ?rq = "\<lparr>req_method = ''POST'', req_url = BASE_URL, req_csrf = Some csrf, req_data = payload a\<rparr>"
  have "request_with_retry e ?rq w1 = (Inr (json_page (ok_data items)), snd (session_request e ?rq w1))"
    by (rule first_attempt_returns) (simp_all add: w1 assms json_page_def)
  then have pp: "post_products e csrf (payload a) w1
                   = (Inr (ok_data items), snd (session_request e ?rq w1))"
    by (simp add: post_products_def json_page_def)
  have sc: "sanity_checks e (ok_data items) = Inr (3, 0, int (length items))"
    by (simp add: sanity_checks_def and_then_def ok_data_def or_empty_list_def)
  have rows: "\<exists>rows. page_to_rows collected_at rid a the_query (ok_data items) = Inr rows"
    by (simp add: page_to_rows_def ok_data_def or_empty_list_def)
  then obtain rows where rows: "page_to_rows collected_at rid a the_query (ok_data items) = Inr rows"
    by blast
  show "\<exists>m. fst (collect_one_page_per_fuel e csrf base a w) = Inr m"
    using rs pp sc rows by (simp add: collect_one_page_per_fuel_def Let_def)
  show "sent (snd (collect_one_page_per_fuel e csrf base a w)) = Suc (sent w)"
    using rs pp sc rows w1 by (simp add: collect_one_page_per_fuel_def Let_def)
qed

lemma collect_bad_reply:
  assumes "server e (sent w) = Resp (json_page bad_data)"
  shows "fst (collect_one_page_per_fuel e csrf base a w) = Inl ResultadoNotList"
    and "sent (snd (collect_one_page_per_fuel e csrf base a w)) = Suc (sent w)"
proof -
  obtain rid ps collected_at w1 where rs: "run_setup e base a w = ((rid, ps, collected_at), w1)"
    by (metis prod.collapse)
  with run_setup_sent[of e base a w] have w1: "sent w1 = sent w" by simp
  let ?rq = "\<lparr>req_method = ''POST'', req_url = BASE_URL, req_csrf = Some csrf, req_data = payload a\<rparr>"
  have "request_with_retry e ?rq w1 = (Inr (json_page bad_data), snd (session_request e ?rq w1))"
    by (rule first_attempt_returns) (simp_all add: w1 assms json_page_def)
  then have pp: "post_products e csrf (payload a) w1 = (Inr bad_data, snd (session_request e ?rq w1))"
    by (simp add: post_products_def json_page_def)
  have sc: "sanity_checks e bad_data = Inl ResultadoNotList"
    by (simp add: sanity_checks_def and_then_def bad_data_def or_empty_list_def)
  show "fst (collect_one_page_per_fuel e csrf base a w) = Inl ResultadoNotList"
    using rs pp sc by (simp add: collect_one_page_per_fuel_def)
  show "sent (snd (collect_one_page_per_fuel e csrf base a w)) = Suc (sent w)"
    using rs pp sc w1 by (simp add: collect_one_page_per_fuel_def)
qed

lemma boot_meta:
  assumes "server e 0 = Resp (page ''meta'')" "re_search e = re_search (test_env srv)"
  shows "fst (bootstrap_and_find_csrf e (emit (MadeDir d) world0)) = Inr ''tok''"
    and "sent (snd (bootstrap_and_find_csrf e (emit (MadeDir d) world0))) = 1"
  using assms
  by (simp_all add: bootstrap_and_find_csrf_def extract_csrf_from_html_def patterns_def
      session_request_def raise_for_status_def page_def world0_def test_env_def Let_def)


lemmas eval_boot = bootstrap_and_find_csrf_def extract_csrf_from_html_def patterns_def
   write_file_def emit_def session_request_def raise_for_status_def

lemmas eval_main = main_def finally_pause_def random_uniform_def FUELS_def enumerate_eq_zip
  overall_path_def upt_conv_Cons


lemma try_block_keeps:
  "clock_reads (snd (try_block e rq a w)) = clock_reads w"
  "ids (snd (try_block e rq a w)) = ids w"
  "fs (snd (try_block e rq a w)) = fs w"
  by (simp_all add: try_block_def split_beta split: reply.splits option.splits sum.splits)

lemma retry_loop_keeps:
  "clock_reads (snd (retry_loop e rq as le w)) = clock_reads w
   \<and> ids (snd (retry_loop e rq as le w)) = ids w
   \<and> fs (snd (retry_loop e rq as le w)) = fs w"
proof (induction as arbitrary: le w)
  case Nil
  show ?case by simp
next
  case (Cons a as)
  obtain res w1 where tb: "try_block e rq a w = (res, w1)" by (cases "try_block e rq a w")
  from try_block_keeps[of e rq a w] tb
  have w1: "clock_reads w1 = clock_reads w" "ids w1 = ids w" "fs w1 = fs w" by simp_all
  show ?case
  proof (cases res)
    case (Return r)
    with tb w1 show ?thesis by simp
  next
    case Continue
    with tb w1 Cons.IH[of le w1] show ?thesis by simp
  next
    case (Raised err)
    let ?w2 = "sleep (fst (compute_backoff e a w1)) (snd (compute_backoff e a w1))"
    from Raised tb have "retry_loop e rq (a # as) le w = retry_loop e rq as (Some err) ?w2"
      by (simp add: split_beta)
    with Cons.IH[of "Some err" ?w2] w1 show ?thesis by simp
  qed
qed

lemma post_products_keeps:
  "clock_reads (snd (post_products e csrf pl w)) = clock_reads w"
  "ids (snd (post_products e csrf pl w)) = ids w"
  "fs (snd (post_products e csrf pl w)) = fs w"
  using retry_loop_keeps[of e _ "[1..MAX_RETRIES]" None w]
  by (simp_all add: post_products_def request_with_retry_def split_beta split: sum.splits option.splits)

lemma run_setup_clock:
  "clock_reads (snd (run_setup e base a w)) = clock_reads w + 2"
  "snd (snd (fst (run_setup e base a w))) = utc_clock e (Suc (clock_reads w))"
  by (simp_all add: run_setup_def new_uuid_def make_out_paths_def local_date_yyyy_mm_dd_def
      utc_now_iso_def Let_def)

lemma collect_clock:
  "clock_reads (snd (collect_one_page_per_fuel e csrf base a w)) = clock_reads w + 2"
proof -
  obtain rid ps collected_at w1 where rs: "run_setup e base a w = ((rid, ps, collected_at), w1)"
    by (metis prod.collapse)
  with run_setup_clock(1)[of e base a w] have w1: "clock_reads w1 = clock_reads w + 2" by simp
  obtain res w2 where pp: "post_products e csrf (payload a) w1 = (res, w2)"
    by (cases "post_products e csrf (payload a) w1")
  with post_products_keeps(1)[of e csrf "payload a" w1] w1
  have w2: "clock_reads w2 = clock_reads w + 2" by simp
  show ?thesis
    using rs pp w2
    by (auto simp add: collect_one_page_per_fuel_def Let_def split: sum.splits prod.splits)
qed

lemma collect_manifest:
  assumes "collect_one_page_per_fuel e csrf base a w = (Inr m, w')"
  shows "collected_at_utc m = utc_clock e (Suc (clock_reads w))" "anp m = a"
proof -
  obtain rid ps collected_at w1 where rs: "run_setup e base a w = ((rid, ps, collected_at), w1)"
    by (metis prod.collapse)
  with run_setup_clock(2)[of e base a w] have "collected_at = utc_clock e (Suc (clock_reads w))"
    by simp
  with assms rs show "collected_at_utc m = utc_clock e (Suc (clock_reads w))" "anp m = a"
    by (auto simp add: collect_one_page_per_fuel_def Let_def split: sum.splits prod.splits)
qed

lemma fuel_loop_times:
  assumes "fuel_loop e csrf cats ov w = (Inr ov', w')"
  shows "finished_at_utc ov' = finished_at_utc ov
       \<and> map anp (runs ov') = map anp (runs ov) @ map snd cats
       \<and> map collected_at_utc (runs ov')
           = map collected_at_utc (runs ov)
             @ map (\<lambda>i. utc_clock e (clock_reads w + 2 * i + 1)) [0..<length cats]"
  using assms
proof (induction cats arbitrary: ov w)
  case Nil
  then show ?case by simp
next
  case (Cons c cats)
  obtain idx a where c: "c = (idx, a)" by (cases c)
  obtain res w1 where col: "collect_one_page_per_fuel e csrf (OUT_DIR e) a w = (res, w1)"
    by (cases "collect_one_page_per_fuel e csrf (OUT_DIR e) a w")
  with Cons.prems c obtain m where m: "res = Inr m"
    by (cases res) simp_all
  from collect_clock[of e csrf "OUT_DIR e" a w] col
  have clock: "clock_reads (finally_pause e idx w1) = clock_reads w + 2" by simp
  from collect_manifest[OF col[unfolded m]]
  have man: "collected_at_utc m = utc_clock e (Suc (clock_reads w))" "anp m = a" .
  from Cons.prems c col m
  have "fuel_loop e csrf cats (ov\<lparr>runs := runs ov @ [m]\<rparr>) (finally_pause e idx w1) = (Inr ov', w')"
    by simp
  from Cons.IH[OF this] clock man c show ?case
    by (simp add: map_upt_Suc_shift del: upt_Suc)
qed

lemma scan_scripts_keeps: "clock_reads (snd (scan_scripts e urls w)) = clock_reads w"
proof (induction urls arbitrary: w)
  case Nil
  show ?case by simp
next
  case (Cons url urls)
  obtain rep w1 where sr: "session_request e (get_request url) w = (rep, w1)"
    by (cases "session_request e (get_request url) w")
  with session_request_fields(1)[of e "get_request url" w]
  have w1: "clock_reads w1 = clock_reads w" by simp
  show ?case
    using Cons.IH[of w1] Cons.IH[of "sleep (1/10) w1"] w1
    by (simp add: sr split: reply.splits option.splits)
qed

lemma scan_js_bundles_keeps: "clock_reads (snd (scan_js_bundles e html w)) = clock_reads w"
  using scan_scripts_keeps[of e "take 25 (find_script_srcs e html)" w]
  by (simp add: scan_js_bundles_def Let_def split_beta split: sum.splits option.splits)

lemma bootstrap_keeps: "clock_reads (snd (bootstrap_and_find_csrf e w)) = clock_reads w"
proof -
  obtain rep w1 where sr: "session_request e (get_request BASE_URL) w = (rep, w1)"
    by (cases "session_request e (get_request BASE_URL) w")
  with session_request_fields(1)[of e "get_request BASE_URL" w]
  have w1: "clock_reads w1 = clock_reads w" by simp
  show ?thesis
    by (simp add: bootstrap_and_find_csrf_def sr Let_def scan_js_bundles_keeps w1
        split: reply.splits option.splits)
qed

lemma fuel_loop_good_replies:
  assumes "\<forall>k\<ge>sent w. server e k = Resp (json_page (ok_data items))"
  shows "\<exists>ov'. fst (fuel_loop e csrf cats ov w) = Inr ov'"
  using assms
proof (induction cats arbitrary: ov w)
  case Nil
  show ?case by simp
next
  case (Cons c cats)
  obtain idx a where c: "c = (idx, a)" by (cases c)
  from Cons.prems have now: "server e (sent w) = Resp (json_page (ok_data items))" by simp
  obtain res w1 where col: "collect_one_page_per_fuel e csrf (OUT_DIR e) a w = (res, w1)"
    by (cases "collect_one_page_per_fuel e csrf (OUT_DIR e) a w")
  from collect_good_reply[OF now, of csrf "OUT_DIR e" a] col
  obtain m where m: "res = Inr m" and w1: "sent w1 = Suc (sent w)" by auto
  have "\<forall>k\<ge>sent (finally_pause e idx w1). server e k = Resp (json_page (ok_data items))"
    using Cons.prems w1 by simp
  from Cons.IH[OF this] c col m show ?case by simp
qed

text \<open>
  Claim C9 against the code. A run that completes writes the overall manifest last, with
  one manifest per fuel, but \<open>finished_at_utc\<close> is read when the dictionary \<open>overall\<close>
  is built, before the loop over the fuels: it is the clock reading taken first, and the
  \<open>collected_at_utc\<close> of the fuels are the readings taken two, four, six and eight
  readings later. With a clock that advances, the finish time is earlier than every
  collection time it aggregates, where the claim says it is no earlier.
\<close>

theorem finish_time_is_read_first:
  assumes "main e w = (Inr (), w')"
  shows "\<exists>ov. fs w' (overall_path e) = Some (OverallDoc ov)
            \<and> last (trace w') = Wrote (overall_path e) (OverallDoc ov)
            \<and> map anp (runs ov) = FUELS
            \<and> finished_at_utc ov = utc_clock e (clock_reads w)
            \<and> map collected_at_utc (runs ov)
                = map (\<lambda>i. utc_clock e (clock_reads w + 2 * i + 2)) [0..<length FUELS]"
proof -
  let ?w0 = "emit (MadeDir (OUT_DIR e)) w"
  obtain res w1 where boot: "bootstrap_and_find_csrf e ?w0 = (res, w1)"
    by (cases "bootstrap_and_find_csrf e ?w0")
  with assms obtain csrf where csrf: "res = Inr csrf"
    by (cases res) (simp_all add: main_def)
  from bootstrap_keeps[of e ?w0] boot have w1: "clock_reads w1 = clock_reads w" by simp
  let ?now = "utc_clock e (clock_reads w)"
  let ?w2 = "w1\<lparr>clock_reads := Suc (clock_reads w1)\<rparr>"
  let ?ov0 = "\<lparr>finished_at_utc = ?now, out_dir = abspath e (OUT_DIR e), runs = []\<rparr>"
  have now: "utc_now_iso e w1 = (?now, ?w2)" by (simp add: utc_now_iso_def w1)
  obtain res3 w3 where loop: "fuel_loop e csrf (enumerate 1 FUELS) ?ov0 ?w2 = (res3, w3)"
    by (cases "fuel_loop e csrf (enumerate 1 FUELS) ?ov0 ?w2")
  with assms boot csrf now obtain ov where ov: "res3 = Inr ov"
    by (cases res3) (simp_all add: main_def)
  from assms boot csrf now loop ov
  have w': "w' = write_file (overall_path e) (OverallDoc ov) w3"
    by (simp add: main_def)
  from fuel_loop_times[OF loop[unfolded ov]] w1
  have "finished_at_utc ov = ?now" "map anp (runs ov) = FUELS"
    "map collected_at_utc (runs ov)
       = map (\<lambda>i. utc_clock e (clock_reads w + 2 * i + 2)) [0..<length FUELS]"
    by (simp_all add: map_snd_enumerate)
  with w' show ?thesis by (intro exI[of _ ov]) (simp add: write_file_def emit_def)
qed

theorem finish_time_is_read_first_witness:
  "fst (main happy_run world0) = Inr ()
   \<and> (\<exists>ov. fs (snd (main happy_run world0)) (overall_path happy_run) = Some (OverallDoc ov)
          \<and> map anp (runs ov) = [''GASOLINA'', ''ETANOL'', ''GNV'', ''DIESEL'']
          \<and> finished_at_utc ov = 1000
          \<and> map collected_at_utc (runs ov) = [1002, 1004, 1006, 1008])"
proof -
  let ?e = happy_run
  have srv: "server ?e 0 = Resp (page ''meta'')" "re_search ?e = re_search (test_env srv)" for srv
    by (simp_all add: happy_run_def test_env_def script_def)
  obtain w1 where boot: "bootstrap_and_find_csrf ?e (emit (MadeDir (OUT_DIR ?e)) world0) = (Inr ''tok'', w1)"
    and sent1: "sent w1 = 1"
    using boot_meta[OF srv, of "OUT_DIR ?e"] by (metis prod.collapse)
  obtain now w2 where clock: "utc_now_iso ?e w1 = (now, w2)" and sent2: "sent w2 = 1"
    using sent1 by (simp add: utc_now_iso_def)
  have later: "server ?e k = Resp (json_page (ok_data [JInt 7]))" if "1 \<le> k" for k
    using that by (simp add: happy_run_def test_env_def script_def)
  have "\<forall>k\<ge>sent w2. server ?e k = Resp (json_page (ok_data [JInt 7]))"
    by (simp add: sent2 later)
  from fuel_loop_good_replies[OF this, of "''tok''" "enumerate 1 FUELS"
      "\<lparr>finished_at_utc = now, out_dir = abspath ?e (OUT_DIR ?e), runs = []\<rparr>"]
  obtain ov' w3 where loop: "fuel_loop ?e ''tok'' (enumerate 1 FUELS)
      \<lparr>finished_at_utc = now, out_dir = abspath ?e (OUT_DIR ?e), runs = []\<rparr> w2 = (Inr ov', w3)"
    by (metis prod.collapse)
  have run: "main ?e world0 = (Inr (), write_file (overall_path ?e) (OverallDoc ov') w3)"
    by (simp add: main_def boot clock loop del: One_nat_def)
  have time: "utc_clock ?e k = 1000 + int k" for k
    by (simp add: happy_run_def test_env_def)
  from finish_time_is_read_first[OF run]
  obtain ov where "fs (write_file (overall_path ?e) (OverallDoc ov') w3) (overall_path ?e)
        = Some (OverallDoc ov)"
    "map anp (runs ov) = FUELS"
    "finished_at_utc ov = utc_clock ?e (clock_reads world0)"
    "map collected_at_utc (runs ov)
       = map (\<lambda>i. utc_clock ?e (clock_reads world0 + 2 * i + 2)) [0..<length FUELS]"
    by blast
  then have found: "fs (snd (main ?e world0)) (overall_path ?e) = Some (OverallDoc ov)
      \<and> map anp (runs ov) = [''GASOLINA'', ''ETANOL'', ''GNV'', ''DIESEL'']
      \<and> finished_at_utc ov = 1000
      \<and> map collected_at_utc (runs ov) = [1002, 1004, 1006, 1008]"
    unfolding run by (simp add: time world0_def FUELS_def upt_conv_Cons)
  have ok: "fst (main ?e world0) = Inr ()" by (simp only: run fst_conv)
  show ?thesis
  proof (rule conjI[OF ok])
    show "\<exists>ov. fs (snd (main ?e world0)) (overall_path ?e) = Some (OverallDoc ov)
          \<and> map anp (runs ov) = [''GASOLINA'', ''ETANOL'', ''GNV'', ''DIESEL'']
          \<and> finished_at_utc ov = 1000
          \<and> map collected_at_utc (runs ov) = [1002, 1004, 1006, 1008]"
      using found by (rule exI[where x = ov])
  qed
qed

end
